theory Spec2Isabelle
  imports Complex_Main "HOL-Library.Sublist"
begin

section \<open>Strings and the Python built-ins used by \<open>app.py\<close>\<close>

text \<open>
  A Python \<open>str\<close> is a sequence of Unicode code points, so a string is a list of
  integers here (\<open>len\<close> counts code points). String literals of the source that are
  plain ASCII are written with \<open>ascii\<close>; the other characters are given by code point.
\<close>

type_synonym ustr = "int list"

definition ascii :: "string \<Rightarrow> ustr" where
  "ascii s = map of_char s"

text \<open>
  \<open>str.lower\<close>, the regular-expression classes \<open>\w\<close> and \<open>\s\<close> and the
  case-insensitive comparison of \<open>re.IGNORECASE\<close> read the Unicode character database of
  the Python runtime, which is not part of the repository. They are a parameter of the
  model; every theorem holds for all such tables. \<open>str_lower\<close> works on whole strings
  (Python's lowercasing may change the length of a string).
\<close>

record unicode =
  str_lower :: "ustr \<Rightarrow> ustr"
  is_word :: "int \<Rightarrow> bool"
  is_space :: "int \<Rightarrow> bool"
  ieq :: "int \<Rightarrow> int \<Rightarrow> bool"

text \<open>
  The tables restricted to ASCII, on which they agree with CPython for every string of
  ASCII code points: \<open>\w\<close> is \<open>[a-zA-Z0-9_]\<close>, \<open>\s\<close> is \<open>[ \t\n\r\f\v]\<close> and the
  file, group, record and unit separators. Used to evaluate the model on ASCII messages.
\<close>

definition ascii_lower :: "int \<Rightarrow> int" where
  "ascii_lower c = (if 65 \<le> c \<and> c \<le> 90 then c + 32 else c)"

definition ascii_word :: "int \<Rightarrow> bool" where
  "ascii_word c = ((97 \<le> c \<and> c \<le> 122) \<or> (65 \<le> c \<and> c \<le> 90) \<or> (48 \<le> c \<and> c \<le> 57) \<or> c = 95)"

definition ascii_space :: "int \<Rightarrow> bool" where
  "ascii_space c = (c = 32 \<or> (9 \<le> c \<and> c \<le> 13) \<or> (28 \<le> c \<and> c \<le> 31))"

definition ascii_tables :: unicode where
  "ascii_tables = \<lparr> str_lower = map ascii_lower, is_word = ascii_word,
     is_space = ascii_space, ieq = (\<lambda>p c. ascii_lower p = ascii_lower c) \<rparr>"

text \<open>\<open>word in text\<close> on strings: \<open>word\<close> occurs as a contiguous substring.\<close>

fun py_in :: "ustr \<Rightarrow> ustr \<Rightarrow> bool" where
  "py_in w [] = (w = [])"
| "py_in w (c # cs) = (prefix w (c # cs) \<or> py_in w cs)"

text \<open>
  \<open>list(dict.fromkeys(xs))\<close>: the keys of a dictionary in insertion order; inserting a
  key that is already present keeps its position.
\<close>

definition dict_insert :: "'a list \<Rightarrow> 'a \<Rightarrow> 'a list" where
  "dict_insert d k = (if k \<in> set d then d else d @ [k])"

definition dict_fromkeys :: "'a list \<Rightarrow> 'a list" where
  "dict_fromkeys xs = foldl dict_insert [] xs"

text \<open>True division raises on a zero divisor.\<close>

datatype py_error = ZeroDivisionError

definition py_truediv :: "nat \<Rightarrow> nat \<Rightarrow> py_error + real" where
  "py_truediv a b = (if b = 0 then Inl ZeroDivisionError else Inr (real a / real b))"

section \<open>Regular expressions\<close>

text \<open>
  The fragment of \<open>re\<close> the three patterns of the source use. A position is the
  character before the cursor (none at the start) and the text after it; matching a
  pattern at a position gives the positions where a match can end, in the order the
  backtracking matcher tries them.
\<close>

datatype cls = Word | NotSpace | OneOf "int list"

datatype regex =
    Eps
  | Chr int
  | Rep nat cls
  | Seq regex regex
  | Alt regex regex
  | Opt regex
  | Bound

type_synonym pos = "int option \<times> ustr"

fun in_cls :: "unicode \<Rightarrow> cls \<Rightarrow> int \<Rightarrow> bool" where
  "in_cls U Word c = is_word U c"
| "in_cls U NotSpace c = (\<not> is_space U c)"
| "in_cls U (OneOf cs) c = (c \<in> set cs)"

text \<open>\<open>Rep n k\<close> is \<open>k{n,}\<close>: at least \<open>n\<close> characters of the class, greedily.\<close>

fun reps :: "(int \<Rightarrow> bool) \<Rightarrow> nat \<Rightarrow> int option \<Rightarrow> ustr \<Rightarrow> pos list" where
  "reps P n p [] = (if n = 0 then [(p, [])] else [])"
| "reps P n p (c # cs) =
     (if P c then reps P (n - 1) (Some c) cs else []) @ (if n = 0 then [(p, c # cs)] else [])"

definition at_boundary :: "unicode \<Rightarrow> pos \<Rightarrow> bool" where
  "at_boundary U ps =
     ((case fst ps of None \<Rightarrow> False | Some a \<Rightarrow> is_word U a)
        \<noteq> (case snd ps of [] \<Rightarrow> False | c # _ \<Rightarrow> is_word U c))"

fun rx :: "unicode \<Rightarrow> bool \<Rightarrow> regex \<Rightarrow> pos \<Rightarrow> pos list" where
  "rx U ic Eps ps = [ps]"
| "rx U ic (Chr a) ps =
     (case snd ps of
        [] \<Rightarrow> []
      | c # cs \<Rightarrow> if (if ic then ieq U a c else a = c) then [(Some c, cs)] else [])"
| "rx U ic (Rep n k) ps = reps (in_cls U k) n (fst ps) (snd ps)"
| "rx U ic (Seq r s) ps = concat (map (rx U ic s) (rx U ic r ps))"
| "rx U ic (Alt r s) ps = rx U ic r ps @ rx U ic s ps"
| "rx U ic (Opt r) ps = rx U ic r ps @ [ps]"
| "rx U ic Bound ps = (if at_boundary U ps then [ps] else [])"

text \<open>
  \<open>pattern.search(text)\<close> is truthy when the pattern matches at some position of the
  text; \<open>ic\<close> is the \<open>re.IGNORECASE\<close> flag of the compiled pattern.
\<close>

fun search_from :: "unicode \<Rightarrow> bool \<Rightarrow> regex \<Rightarrow> int option \<Rightarrow> ustr \<Rightarrow> bool" where
  "search_from U ic r p [] = (rx U ic r (p, []) \<noteq> [])"
| "search_from U ic r p (c # cs) = (rx U ic r (p, c # cs) \<noteq> [] \<or> search_from U ic r (Some c) cs)"

definition re_search :: "unicode \<Rightarrow> bool \<Rightarrow> regex \<Rightarrow> ustr \<Rightarrow> bool" where
  "re_search U ic r s = search_from U ic r None s"

definition lit :: "ustr \<Rightarrow> regex" where
  "lit s = foldr (\<lambda>c r. Seq (Chr c) r) s Eps"

text \<open>
  \<open>re.findall(r"\b\w+\b", text)\<close>: the maximal runs of word characters, left to right
  (a run starts and ends at a word boundary, and \<open>\w+\<close> takes all of it).
\<close>

fun word_runs :: "(int \<Rightarrow> bool) \<Rightarrow> ustr \<Rightarrow> ustr \<Rightarrow> ustr list" where
  "word_runs P cur [] = (if cur = [] then [] else [cur])"
| "word_runs P cur (c # cs) =
     (if P c then word_runs P (cur @ [c]) cs
      else (if cur = [] then [] else [cur]) @ word_runs P [] cs)"

definition findall_words :: "unicode \<Rightarrow> ustr \<Rightarrow> ustr list" where
  "findall_words U s = word_runs (is_word U) [] s"

section \<open>The explainability engine (\<open>app.py\<close>)\<close>

definition SPAM_KEYWORDS :: "ustr list" where
  "SPAM_KEYWORDS = map ascii
    [''free'', ''win'', ''winner'', ''click'', ''offer'', ''urgent'', ''lottery'',
     ''now'', ''prize'', ''cash'', ''reward'', ''claim'', ''selected'', ''congratulations'',
     ''exclusive'', ''limited'', ''guaranteed'', ''act'', ''earn'', ''money'',
     ''bonus'', ''upgrade'', ''membership'', ''discount'', ''cheap'', ''buy'',
     ''call'', ''text'', ''subscribe'', ''unsubscribe'', ''credit'', ''loan'']"

definition URGENCY_WORDS :: "ustr list" where
  "URGENCY_WORDS = map ascii
    [''urgent'', ''immediately'', ''now'', ''today'', ''expires'', ''limited'', ''hurry'',
     ''act'', ''fast'', ''quick'', ''instant'', ''deadline'', ''last chance'', ''expiring'']"

text \<open>
  \<open>(https?://[^\s]+|www\.[^\s]+|\b\w+\.(com|net|org|xyz|info|biz|ru|tk|click)[^\s]*)\<close>,
  compiled with \<open>re.IGNORECASE\<close>.
\<close>

definition URL_PATTERN :: regex where
  "URL_PATTERN =
     Alt (Seq (lit (ascii ''http'')) (Seq (Opt (Chr 115)) (Seq (lit (ascii ''://'')) (Rep 1 NotSpace))))
    (Alt (Seq (lit (ascii ''www.'')) (Rep 1 NotSpace))
         (Seq Bound (Seq (Rep 1 Word) (Seq (Chr 46)
           (Seq (Alt (lit (ascii ''com'')) (Alt (lit (ascii ''net'')) (Alt (lit (ascii ''org''))
                (Alt (lit (ascii ''xyz'')) (Alt (lit (ascii ''info'')) (Alt (lit (ascii ''biz''))
                (Alt (lit (ascii ''ru'')) (Alt (lit (ascii ''tk'')) (lit (ascii ''click''))))))))))
              (Rep 0 NotSpace))))))"

text \<open>\<open>[!\<pounds>$\<euro>@#%&*]{2,}\<close>, with the pound sign U+00A3 and the euro sign U+20AC.\<close>

definition EXCESSIVE_SYMBOL_PATTERN :: regex where
  "EXCESSIVE_SYMBOL_PATTERN = Rep 2 (OneOf [33, 163, 36, 8364, 64, 35, 37, 38, 42])"

text \<open>The reason strings; their first characters are emoji, given by code point.\<close>

definition kw_reason :: "ustr \<Rightarrow> ustr" where
  "kw_reason keyword =
     [9888, 65039] @ ascii '' Contains suspicious keyword: <b>'' @ keyword @ ascii ''</b>''"

definition urg_reason :: "ustr \<Rightarrow> ustr" where
  "urg_reason word =
     [128680] @ ascii '' Contains urgency word: <b>'' @ word @ ascii ''</b>''"

definition URL_REASON :: ustr where
  "URL_REASON = [128279] @ ascii '' Contains a URL '' @ [8212]
     @ ascii '' possible phishing link detected''"

definition SYMBOL_REASON :: ustr where
  "SYMBOL_REASON = [128178] @ ascii '' Contains excessive symbols ($$, !!, '' @ [163, 163]
     @ ascii '') '' @ [8212] @ ascii '' common in spam''"

definition CAPS_REASON :: ustr where
  "CAPS_REASON = [128288] @ ascii '' Message uses excessive CAPS '' @ [8212]
     @ ascii '' typical spam behavior''"

text \<open>Check 1, the loop over \<open>SPAM_KEYWORDS\<close>; the state is the two lists being built.\<close>

fun check_keywords :: "ustr list \<Rightarrow> ustr list \<Rightarrow> ustr list \<times> ustr list \<Rightarrow> ustr list \<times> ustr list" where
  "check_keywords words_in_msg [] st = st"
| "check_keywords words_in_msg (keyword # rest) st =
     check_keywords words_in_msg rest
       (if keyword \<in> set words_in_msg then
          (if keyword \<notin> set (fst st)
           then (fst st @ [keyword], snd st @ [kw_reason keyword])
           else st)
        else st)"

text \<open>Check 2, the loop over \<open>URGENCY_WORDS\<close>.\<close>

fun check_urgency :: "ustr \<Rightarrow> ustr list \<Rightarrow> ustr list \<times> ustr list \<Rightarrow> ustr list \<times> ustr list" where
  "check_urgency msg_lower [] st = st"
| "check_urgency msg_lower (word # rest) st =
     check_urgency msg_lower rest
       (if py_in word msg_lower \<and> word \<notin> set (fst st)
        then (fst st @ [word], snd st @ [urg_reason word])
        else st)"

text \<open>\<open>re.sub(r"[^a-zA-Z ]", "", message)\<close>: the ASCII letters and the spaces are kept.\<close>

definition keep_letters_spaces :: "ustr \<Rightarrow> ustr" where
  "keep_letters_spaces message =
     filter (\<lambda>c. (97 \<le> c \<and> c \<le> 122) \<or> (65 \<le> c \<and> c \<le> 90) \<or> c = 32) message"

text \<open>
  \<open>c.isupper()\<close> for a character of \<open>words_only\<close>, which holds ASCII letters and
  spaces only: true exactly for \<open>A\<close> to \<open>Z\<close>.
\<close>

definition isupper :: "int \<Rightarrow> bool" where
  "isupper c = (65 \<le> c \<and> c \<le> 90)"

text \<open>
  Check 5. The \<open>and\<close> of the source evaluates the division only when \<open>words_only\<close> is
  not empty.
\<close>

definition caps_check :: "ustr \<Rightarrow> py_error + bool" where
  "caps_check words_only =
     (if words_only = [] then Inr False
      else case py_truediv (length (filter isupper words_only)) (max (length words_only) 1) of
             Inl e \<Rightarrow> Inl e
           | Inr ratio \<Rightarrow> Inr (ratio > 0.5))"

text \<open>
  \<open>explain_message\<close> returns the pair \<open>(suspicious_words, explanations)\<close>, or the
  exception it raises. \<open>URL_PATTERN.findall(message)\<close> is only tested for being
  non-empty, which is whether the pattern matches somewhere.
\<close>

definition explain_message :: "unicode \<Rightarrow> ustr \<Rightarrow> py_error + (ustr list \<times> ustr list)" where
  "explain_message U message =
     (let msg_lower = str_lower U message;
          words_in_msg = findall_words U msg_lower;
          st1 = check_keywords words_in_msg SPAM_KEYWORDS ([], []);
          st2 = check_urgency msg_lower URGENCY_WORDS st1;
          st3 = (if re_search U True URL_PATTERN message
                 then (fst st2 @ [ascii ''http'', ascii ''www''], snd st2 @ [URL_REASON])
                 else st2);
          ex4 = (if re_search U False EXCESSIVE_SYMBOL_PATTERN message
                 then snd st3 @ [SYMBOL_REASON] else snd st3);
          words_only = keep_letters_spaces message
      in case caps_check words_only of
           Inl e \<Rightarrow> Inl e
         | Inr caps \<Rightarrow>
             Inr (dict_fromkeys (fst st3), if caps then ex4 @ [CAPS_REASON] else ex4))"

section \<open>Scammer intent detection\<close>

definition MONEY_THEFT_KEYWORDS :: "ustr list" where
  "MONEY_THEFT_KEYWORDS = map ascii
    [''win'', ''winner'', ''prize'', ''cash'', ''money'', ''reward'', ''claim'', ''payment'',
     ''transfer'', ''deposit'', ''account'', ''loan'', ''credit'', ''debt'', ''fee'',
     ''pay'', ''bitcoin'', ''cryptocurrency'', ''investment'', ''profit'', ''earn'']"

definition DATA_THEFT_KEYWORDS :: "ustr list" where
  "DATA_THEFT_KEYWORDS = map ascii
    [''verify'', ''confirm'', ''update'', ''security'', ''password'', ''account'',
     ''login'', ''credentials'', ''personal'', ''information'', ''details'', ''ssn'',
     ''social security'', ''card number'', ''cvv'', ''pin'', ''identity'', ''verification'']"

definition PANIC_KEYWORDS :: "ustr list" where
  "PANIC_KEYWORDS = map ascii
    [''urgent'', ''immediately'', ''suspend'', ''suspended'', ''blocked'', ''locked'',
     ''compromised'', ''unauthorized'', ''fraud'', ''fraudulent'', ''alert'', ''warning'',
     ''expires'', ''expired'', ''deadline'', ''last chance'', ''act now'', ''emergency'']"

definition MALWARE_KEYWORDS :: "ustr list" where
  "MALWARE_KEYWORDS = map ascii
    [''click'', ''download'', ''install'', ''update'', ''software'', ''antivirus'',
     ''security update'', ''patch'', ''link'', ''attachment'', ''file'']"

text \<open>An intent is the dictionary with the keys \<open>icon\<close>, \<open>goal\<close> and \<open>description\<close>.\<close>

record intent =
  icon :: ustr
  goal :: ustr
  description :: ustr

definition STEAL_MONEY :: intent where
  "STEAL_MONEY = \<lparr> icon = [128176], goal = ascii ''Steal Money'',
     description = ascii ''Scammer wants you to send money or provide payment information'' \<rparr>"

definition STEAL_DATA :: intent where
  "STEAL_DATA = \<lparr> icon = [128272], goal = ascii ''Steal Personal Data'',
     description = ascii ''Scammer is trying to harvest your login credentials or personal information'' \<rparr>"

definition CREATE_PANIC :: intent where
  "CREATE_PANIC = \<lparr> icon = [128561], goal = ascii ''Create Panic'',
     description = ascii ''Scammer uses urgency and fear to make you act without thinking'' \<rparr>"

definition INSTALL_MALWARE :: intent where
  "INSTALL_MALWARE = \<lparr> icon = [129440], goal = ascii ''Install Malware'',
     description = ascii ''Scammer wants you to click a link or download malicious software'' \<rparr>"

definition DECEPTIVE_INTENT :: intent where
  "DECEPTIVE_INTENT = \<lparr> icon = [127919], goal = ascii ''Deceptive Intent'',
     description = ascii ''Scammer is attempting to deceive or manipulate you'' \<rparr>"

text \<open>\<open>sum(1 for word in keywords if word in msg_lower)\<close>\<close>

definition count_matches :: "ustr list \<Rightarrow> ustr \<Rightarrow> nat" where
  "count_matches keywords msg_lower = length (filter (\<lambda>word. py_in word msg_lower) keywords)"

definition detect_scammer_intent :: "unicode \<Rightarrow> ustr \<Rightarrow> ustr \<Rightarrow> intent list" where
  "detect_scammer_intent U message prediction =
     (if prediction \<noteq> ascii ''spam'' then []
      else
        let msg_lower = str_lower U message;
            intents0 = [];
            money_matches = count_matches MONEY_THEFT_KEYWORDS msg_lower;
            intents1 = (if money_matches \<ge> 2 then intents0 @ [STEAL_MONEY] else intents0);
            data_matches = count_matches DATA_THEFT_KEYWORDS msg_lower;
            intents2 = (if data_matches \<ge> 2 then intents1 @ [STEAL_DATA] else intents1);
            panic_matches = count_matches PANIC_KEYWORDS msg_lower;
            intents3 = (if panic_matches \<ge> 2 then intents2 @ [CREATE_PANIC] else intents2);
            malware_matches = count_matches MALWARE_KEYWORDS msg_lower;
            urls_present = re_search U True URL_PATTERN message;
            intents4 = (if malware_matches \<ge> 2 \<and> urls_present
                        then intents3 @ [INSTALL_MALWARE] else intents3)
        in if intents4 = [] then intents4 @ [DECEPTIVE_INTENT] else intents4)"

section \<open>The response of \<open>predict\<close>\<close>

definition HAM_NOTE :: ustr where
  "HAM_NOTE = [8505, 65039]
     @ ascii '' Model predicts HAM, but some suspicious patterns were found:''"

definition ML_NOTE :: ustr where
  "ML_NOTE = [129302] @ ascii '' ML model detected spam patterns based on learned features.''"

record 'c response =
  prediction :: ustr
  confidence :: 'c
  suspicious_words :: "ustr list"
  explanation :: "ustr list"
  scammer_intent :: "intent list"

text \<open>
  The part of \<open>predict\<close> after the classifier has answered (from \<open>explain_message(message)\<close>
  to the response dictionary). The stripped, non-empty message, the label and the
  confidence that the model gave are the arguments; the confidence is of any type, since it
  is only passed on.
\<close>

definition predict :: "unicode \<Rightarrow> ustr \<Rightarrow> ustr \<Rightarrow> 'c \<Rightarrow> py_error + 'c response" where
  "predict U message pred conf =
     (case explain_message U message of
        Inl e \<Rightarrow> Inl e
      | Inr (sw, explanations) \<Rightarrow>
          let intents = detect_scammer_intent U message pred;
              explanations1 = (if pred = ascii ''ham'' \<and> sw \<noteq> []
                               then HAM_NOTE # explanations else explanations);
              explanations2 = (if pred = ascii ''spam'' \<and> explanations1 = []
                               then explanations1 @ [ML_NOTE] else explanations1)
          in Inr \<lparr> prediction = pred, confidence = conf, suspicious_words = sw,
                    explanation = explanations2, scammer_intent = intents \<rparr>)"

section \<open>The detection steps as the specification words them\<close>

text \<open>
  The conditions of the specification's steps 2 to 6, as functions of the message, to
  compare with what the loops of \<open>explain_message\<close> build.
\<close>

definition keyword_hits :: "unicode \<Rightarrow> ustr \<Rightarrow> ustr list" where
  "keyword_hits U message =
     filter (\<lambda>k. k \<in> set (findall_words U (str_lower U message))) SPAM_KEYWORDS"

definition urgency_hits :: "unicode \<Rightarrow> ustr \<Rightarrow> ustr list" where
  "urgency_hits U message =
     filter (\<lambda>w. py_in w (str_lower U message) \<and> w \<notin> set (keyword_hits U message)) URGENCY_WORDS"

definition url_found :: "unicode \<Rightarrow> ustr \<Rightarrow> bool" where
  "url_found U message = re_search U True URL_PATTERN message"

definition symbols_found :: "unicode \<Rightarrow> ustr \<Rightarrow> bool" where
  "symbols_found U message = re_search U False EXCESSIVE_SYMBOL_PATTERN message"

text \<open>
  The number of uppercase ASCII letters of the message, and the number of its ASCII
  letters and spaces.
\<close>

definition count_upper :: "ustr \<Rightarrow> nat" where
  "count_upper message = length (filter isupper message)"

definition count_letters_spaces :: "ustr \<Rightarrow> nat" where
  "count_letters_spaces message = length (keep_letters_spaces message)"

definition caps_excess :: "ustr \<Rightarrow> bool" where
  "caps_excess message =
     (count_letters_spaces message \<noteq> 0
      \<and> real (count_upper message) / real (count_letters_spaces message) > 0.5)"

text \<open>
  The ratio as the specification's step 6 words it: uppercase letters over letters, with
  digits, punctuation and whitespace left out of both.
\<close>

definition letters_only :: "ustr \<Rightarrow> ustr" where
  "letters_only message =
     filter (\<lambda>c. (97 \<le> c \<and> c \<le> 122) \<or> (65 \<le> c \<and> c \<le> 90)) message"

definition caps_ratio_letters_only :: "ustr \<Rightarrow> bool" where
  "caps_ratio_letters_only message =
     (letters_only message \<noteq> []
      \<and> real (length (filter isupper (letters_only message)))
            / real (length (letters_only message)) > 0.5)"

text \<open>
  \<open>suspicious_words\<close> at the moment the urgency loop reaches \<open>word\<close>: the state after
  check 1 and after the urgency words listed before \<open>word\<close>.
\<close>

definition flagged_when_scanned :: "unicode \<Rightarrow> ustr \<Rightarrow> ustr \<Rightarrow> ustr list" where
  "flagged_when_scanned U message word =
     fst (check_urgency (str_lower U message) (takeWhile (\<lambda>v. v \<noteq> word) URGENCY_WORDS)
            (check_keywords (findall_words U (str_lower U message)) SPAM_KEYWORDS ([], [])))"

section \<open>Auxiliary facts\<close>

lemma caps_check_eq [code]:
  "caps_check w = Inr (length w < 2 * length (filter isupper w))"
proof (cases "w = []")
  case True
  then show ?thesis by (simp add: caps_check_def)
next
  case False
  then have pos: "0 < length w" by simp
  then have m: "max (length w) 1 = length w" by arith
  have "(real (length w) < 2 * real (length (filter isupper w)))
          = (real (length w) < real (2 * length (filter isupper w)))"
    by simp
  also have "\<dots> = (length w < 2 * length (filter isupper w))"
    by (rule of_nat_less_iff)
  finally have eq: "(real (length (filter isupper w)) / real (length w) > 0.5)
          = (length w < 2 * length (filter isupper w))"
    using pos by (simp add: field_simps)
  show ?thesis
    unfolding caps_check_def py_truediv_def m using False pos eq by simp
qed

lemma foldl_dict_insert_fresh:
  "distinct (acc @ xs) \<Longrightarrow> foldl dict_insert acc xs = acc @ xs"
proof (induction xs arbitrary: acc)
  case Nil
  then show ?case by simp
next
  case (Cons x xs)
  from Cons.prems have "x \<notin> set acc" and "distinct ((acc @ [x]) @ xs)" by auto
  with Cons.IH [of "acc @ [x]"] show ?case by (simp add: dict_insert_def)
qed

lemma dict_fromkeys_distinct_id: "distinct xs \<Longrightarrow> dict_fromkeys xs = xs"
  using foldl_dict_insert_fresh [of "[]" xs] by (simp add: dict_fromkeys_def)

lemma foldl_dict_insert_props:
  "distinct acc \<Longrightarrow> distinct (foldl dict_insert acc xs) \<and> set (foldl dict_insert acc xs) = set acc \<union> set xs"
  by (induction xs arbitrary: acc) (auto simp: dict_insert_def)

lemma dict_fromkeys_distinct: "distinct (dict_fromkeys xs)"
  using foldl_dict_insert_props [of "[]" xs] by (simp add: dict_fromkeys_def)

lemma dict_fromkeys_set: "set (dict_fromkeys xs) = set xs"
  using foldl_dict_insert_props [of "[]" xs] by (simp add: dict_fromkeys_def)

lemma check_keywords_closed:
  "distinct kws \<Longrightarrow> set kws \<inter> set sw = {} \<Longrightarrow>
   check_keywords ws kws (sw, ex) =
     (sw @ filter (\<lambda>k. k \<in> set ws) kws, ex @ map kw_reason (filter (\<lambda>k. k \<in> set ws) kws))"
proof (induction kws arbitrary: sw ex)
  case Nil
  then show ?case by simp
next
  case (Cons k kws)
  then have fresh: "k \<notin> set sw" "k \<notin> set kws" "distinct kws" "set kws \<inter> set sw = {}"
    by auto
  show ?case
  proof (cases "k \<in> set ws")
    case True
    from fresh have "set kws \<inter> set (sw @ [k]) = {}" by auto
    from Cons.IH [OF fresh(3) this] True fresh(1) show ?thesis by simp
  next
    case False
    from Cons.IH [OF fresh(3) fresh(4)] False show ?thesis by simp
  qed
qed

lemma check_urgency_closed:
  "distinct uws \<Longrightarrow>
   check_urgency ml uws (sw, ex) =
     (sw @ filter (\<lambda>w. py_in w ml \<and> w \<notin> set sw) uws,
      ex @ map urg_reason (filter (\<lambda>w. py_in w ml \<and> w \<notin> set sw) uws))"
proof (induction uws arbitrary: sw ex)
  case Nil
  then show ?case by simp
next
  case (Cons u uws)
  then have d: "u \<notin> set uws" "distinct uws" by auto
  have same: "filter (\<lambda>w. py_in w ml \<and> w \<notin> set (sw @ [u])) uws
                = filter (\<lambda>w. py_in w ml \<and> w \<notin> set sw) uws"
    using d(1) by (intro filter_cong) auto
  show ?case
  proof (cases "py_in u ml \<and> u \<notin> set sw")
    case True
    with Cons.IH [OF d(2), of "sw @ [u]"] same show ?thesis by simp
  next
    case False
    with Cons.IH [OF d(2), of sw] show ?thesis by auto
  qed
qed

lemma SPAM_KEYWORDS_distinct: "distinct SPAM_KEYWORDS"
  by code_simp

lemma URGENCY_WORDS_distinct: "distinct URGENCY_WORDS"
  by code_simp

lemma markers_fresh:
  "ascii ''http'' \<notin> set SPAM_KEYWORDS" "ascii ''www'' \<notin> set SPAM_KEYWORDS"
  "ascii ''http'' \<notin> set URGENCY_WORDS" "ascii ''www'' \<notin> set URGENCY_WORDS"
  "ascii ''http'' \<noteq> ascii ''www''"
  by code_simp+

lemma kw_reason_inj: "(kw_reason a = kw_reason b) = (a = b)"
  by (simp add: kw_reason_def)

lemma urg_reason_inj: "(urg_reason a = urg_reason b) = (a = b)"
  by (simp add: urg_reason_def)

lemma reason_neq:
  "kw_reason k \<noteq> urg_reason w" "kw_reason k \<noteq> URL_REASON" "kw_reason k \<noteq> SYMBOL_REASON"
  "kw_reason k \<noteq> CAPS_REASON" "kw_reason k \<noteq> HAM_NOTE" "kw_reason k \<noteq> ML_NOTE"
  "urg_reason w \<noteq> kw_reason k" "urg_reason w \<noteq> URL_REASON" "urg_reason w \<noteq> SYMBOL_REASON"
  "urg_reason w \<noteq> CAPS_REASON" "urg_reason w \<noteq> HAM_NOTE" "urg_reason w \<noteq> ML_NOTE"
  "URL_REASON \<noteq> SYMBOL_REASON" "URL_REASON \<noteq> CAPS_REASON" "URL_REASON \<noteq> HAM_NOTE"
  "URL_REASON \<noteq> ML_NOTE" "SYMBOL_REASON \<noteq> URL_REASON" "SYMBOL_REASON \<noteq> CAPS_REASON"
  "SYMBOL_REASON \<noteq> HAM_NOTE" "SYMBOL_REASON \<noteq> ML_NOTE" "CAPS_REASON \<noteq> URL_REASON"
  "CAPS_REASON \<noteq> SYMBOL_REASON" "CAPS_REASON \<noteq> HAM_NOTE" "CAPS_REASON \<noteq> ML_NOTE"
  "HAM_NOTE \<noteq> ML_NOTE" "ML_NOTE \<noteq> HAM_NOTE"
  "URL_REASON \<noteq> kw_reason k" "SYMBOL_REASON \<noteq> kw_reason k" "CAPS_REASON \<noteq> kw_reason k"
  "HAM_NOTE \<noteq> kw_reason k" "ML_NOTE \<noteq> kw_reason k"
  "URL_REASON \<noteq> urg_reason w" "SYMBOL_REASON \<noteq> urg_reason w" "CAPS_REASON \<noteq> urg_reason w"
  "HAM_NOTE \<noteq> urg_reason w" "ML_NOTE \<noteq> urg_reason w"
  "HAM_NOTE \<noteq> URL_REASON" "HAM_NOTE \<noteq> SYMBOL_REASON" "HAM_NOTE \<noteq> CAPS_REASON"
  "ML_NOTE \<noteq> URL_REASON" "ML_NOTE \<noteq> SYMBOL_REASON" "ML_NOTE \<noteq> CAPS_REASON"
  by (simp_all add: kw_reason_def urg_reason_def URL_REASON_def SYMBOL_REASON_def
      CAPS_REASON_def HAM_NOTE_def ML_NOTE_def)

lemma filter_isupper_kept: "filter isupper (keep_letters_spaces m) = filter isupper m"
  unfolding keep_letters_spaces_def by (induction m) (auto simp: isupper_def)

lemma count_upper_le: "count_upper m \<le> count_letters_spaces m"
proof -
  have "length (filter isupper (keep_letters_spaces m)) \<le> length (keep_letters_spaces m)"
    by (rule length_filter_le)
  then show ?thesis
    by (simp add: filter_isupper_kept count_upper_def count_letters_spaces_def)
qed

lemma caps_excess_eq:
  "caps_excess m = (count_letters_spaces m < 2 * count_upper m)"
proof (cases "count_letters_spaces m = 0")
  case True
  with count_upper_le [of m] show ?thesis by (simp add: caps_excess_def)
next
  case False
  then have pos: "0 < count_letters_spaces m" by simp
  have "(real (count_letters_spaces m) < 2 * real (count_upper m))
          = (real (count_letters_spaces m) < real (2 * count_upper m))"
    by simp
  also have "\<dots> = (count_letters_spaces m < 2 * count_upper m)"
    by (rule of_nat_less_iff)
  finally show ?thesis using pos by (simp add: caps_excess_def field_simps)
qed

lemma caps_check_excess: "caps_check (keep_letters_spaces m) = Inr (caps_excess m)"
  by (simp add: caps_check_eq caps_excess_eq filter_isupper_kept count_upper_def
      count_letters_spaces_def)

lemma hits_distinct:
  "distinct (keyword_hits U m @ urgency_hits U m
      @ (if url_found U m then [ascii ''http'', ascii ''www''] else []))"
proof -
  have k: "distinct (keyword_hits U m)" "set (keyword_hits U m) \<subseteq> set SPAM_KEYWORDS"
    using SPAM_KEYWORDS_distinct by (auto simp: keyword_hits_def)
  have u: "distinct (urgency_hits U m)" "set (urgency_hits U m) \<subseteq> set URGENCY_WORDS"
    "set (urgency_hits U m) \<inter> set (keyword_hits U m) = {}"
    using URGENCY_WORDS_distinct by (auto simp: urgency_hits_def)
  from k u markers_fresh show ?thesis by auto
qed

lemma explain_message_closed:
  "explain_message U m =
     Inr (keyword_hits U m @ urgency_hits U m
            @ (if url_found U m then [ascii ''http'', ascii ''www''] else []),
          map kw_reason (keyword_hits U m) @ map urg_reason (urgency_hits U m)
            @ (if url_found U m then [URL_REASON] else [])
            @ (if symbols_found U m then [SYMBOL_REASON] else [])
            @ (if caps_excess m then [CAPS_REASON] else []))"
proof -
  let ?ml = "str_lower U m"
  let ?ws = "findall_words U ?ml"
  have st1: "check_keywords ?ws SPAM_KEYWORDS ([], [])
               = (keyword_hits U m, map kw_reason (keyword_hits U m))"
    using check_keywords_closed [OF SPAM_KEYWORDS_distinct, of "[]" ?ws "[]"]
    by (simp add: keyword_hits_def)
  have st2: "check_urgency ?ml URGENCY_WORDS (keyword_hits U m, map kw_reason (keyword_hits U m))
               = (keyword_hits U m @ urgency_hits U m,
                  map kw_reason (keyword_hits U m) @ map urg_reason (urgency_hits U m))"
    using check_urgency_closed [OF URGENCY_WORDS_distinct]
    by (simp add: urgency_hits_def)
  have dd: "dict_fromkeys (keyword_hits U m @ urgency_hits U m
              @ (if url_found U m then [ascii ''http'', ascii ''www''] else []))
            = keyword_hits U m @ urgency_hits U m
              @ (if url_found U m then [ascii ''http'', ascii ''www''] else [])"
    by (rule dict_fromkeys_distinct_id [OF hits_distinct])
  show ?thesis
    unfolding explain_message_def Let_def st1 st2 caps_check_excess
      url_found_def symbols_found_def
    using dd [unfolded url_found_def]
    by (cases "re_search U True URL_PATTERN m") simp_all
qed

lemma reasons_closed_mem:
  assumes "explain_message U m = Inr (sw, ex)"
  shows "kw_reason k \<in> set ex \<longleftrightarrow> k \<in> set (keyword_hits U m)"
    and "urg_reason w \<in> set ex \<longleftrightarrow> w \<in> set (urgency_hits U m)"
    and "URL_REASON \<in> set ex \<longleftrightarrow> url_found U m"
    and "SYMBOL_REASON \<in> set ex \<longleftrightarrow> symbols_found U m"
    and "CAPS_REASON \<in> set ex \<longleftrightarrow> caps_excess m"
    and "HAM_NOTE \<notin> set ex" and "ML_NOTE \<notin> set ex"
proof -
  from assms explain_message_closed [of U m]
  have ex: "ex = map kw_reason (keyword_hits U m) @ map urg_reason (urgency_hits U m)
            @ (if url_found U m then [URL_REASON] else [])
            @ (if symbols_found U m then [SYMBOL_REASON] else [])
            @ (if caps_excess m then [CAPS_REASON] else [])"
    by simp
  show "kw_reason k \<in> set ex \<longleftrightarrow> k \<in> set (keyword_hits U m)"
    unfolding ex by (auto simp: kw_reason_inj reason_neq)
  show "urg_reason w \<in> set ex \<longleftrightarrow> w \<in> set (urgency_hits U m)"
    unfolding ex by (auto simp: urg_reason_inj reason_neq)
  show "URL_REASON \<in> set ex \<longleftrightarrow> url_found U m"
    unfolding ex by (auto simp: reason_neq)
  show "SYMBOL_REASON \<in> set ex \<longleftrightarrow> symbols_found U m"
    unfolding ex by (auto simp: reason_neq)
  show "CAPS_REASON \<in> set ex \<longleftrightarrow> caps_excess m"
    unfolding ex by (auto simp: reason_neq)
  show "HAM_NOTE \<notin> set ex"
    unfolding ex by (auto simp: reason_neq)
  show "ML_NOTE \<notin> set ex"
    unfolding ex by (auto simp: reason_neq)
qed

lemma flagged_when_scanned_closed:
  "flagged_when_scanned U m w =
     keyword_hits U m @ filter (\<lambda>v. py_in v (str_lower U m) \<and> v \<notin> set (keyword_hits U m))
                          (takeWhile (\<lambda>v. v \<noteq> w) URGENCY_WORDS)"
proof -
  have st1: "check_keywords (findall_words U (str_lower U m)) SPAM_KEYWORDS ([], [])
               = (keyword_hits U m, map kw_reason (keyword_hits U m))"
    using check_keywords_closed [OF SPAM_KEYWORDS_distinct, of "[]"]
    by (simp add: keyword_hits_def)
  have d: "distinct (takeWhile (\<lambda>v. v \<noteq> w) URGENCY_WORDS)"
    using URGENCY_WORDS_distinct by (rule distinct_takeWhile)
  show ?thesis
    unfolding flagged_when_scanned_def st1 check_urgency_closed [OF d] by simp
qed

lemma not_flagged_when_scanned:
  "w \<notin> set (flagged_when_scanned U m w) \<longleftrightarrow> w \<notin> set (keyword_hits U m)"
proof -
  have "w \<notin> set (takeWhile (\<lambda>v. v \<noteq> w) URGENCY_WORDS)"
    by (auto dest: set_takeWhileD)
  then show ?thesis
    unfolding flagged_when_scanned_closed by auto
qed

lemma intents_distinct:
  "STEAL_MONEY \<noteq> STEAL_DATA" "STEAL_MONEY \<noteq> CREATE_PANIC" "STEAL_MONEY \<noteq> INSTALL_MALWARE"
  "STEAL_MONEY \<noteq> DECEPTIVE_INTENT" "STEAL_DATA \<noteq> STEAL_MONEY" "STEAL_DATA \<noteq> CREATE_PANIC"
  "STEAL_DATA \<noteq> INSTALL_MALWARE" "STEAL_DATA \<noteq> DECEPTIVE_INTENT"
  "CREATE_PANIC \<noteq> STEAL_MONEY" "CREATE_PANIC \<noteq> STEAL_DATA" "CREATE_PANIC \<noteq> INSTALL_MALWARE"
  "CREATE_PANIC \<noteq> DECEPTIVE_INTENT" "INSTALL_MALWARE \<noteq> STEAL_MONEY"
  "INSTALL_MALWARE \<noteq> STEAL_DATA" "INSTALL_MALWARE \<noteq> CREATE_PANIC"
  "INSTALL_MALWARE \<noteq> DECEPTIVE_INTENT" "DECEPTIVE_INTENT \<noteq> STEAL_MONEY"
  "DECEPTIVE_INTENT \<noteq> STEAL_DATA" "DECEPTIVE_INTENT \<noteq> CREATE_PANIC"
  "DECEPTIVE_INTENT \<noteq> INSTALL_MALWARE"
  by (simp_all add: STEAL_MONEY_def STEAL_DATA_def CREATE_PANIC_def INSTALL_MALWARE_def
      DECEPTIVE_INTENT_def)

lemma intent_keywords_distinct:
  "distinct MONEY_THEFT_KEYWORDS" "distinct DATA_THEFT_KEYWORDS"
  "distinct PANIC_KEYWORDS" "distinct MALWARE_KEYWORDS"
  by code_simp+

lemma count_matches_card:
  "distinct kws \<Longrightarrow> count_matches kws ml = card {w \<in> set kws. py_in w ml}"
proof -
  assume "distinct kws"
  then have "length (filter (\<lambda>w. py_in w ml) kws) = card ({w. py_in w ml} \<inter> set kws)"
    by (rule distinct_length_filter)
  moreover have "{w. py_in w ml} \<inter> set kws = {w \<in> set kws. py_in w ml}" by auto
  ultimately show ?thesis by (simp add: count_matches_def)
qed

lemma labels_differ: "ascii ''ham'' \<noteq> ascii ''spam''"
  by (simp add: ascii_def)

lemma detect_spam_closed:
  "detect_scammer_intent U m (ascii ''spam'') =
     (let ml = str_lower U m;
          s = (if 2 \<le> count_matches MONEY_THEFT_KEYWORDS ml then [STEAL_MONEY] else [])
            @ (if 2 \<le> count_matches DATA_THEFT_KEYWORDS ml then [STEAL_DATA] else [])
            @ (if 2 \<le> count_matches PANIC_KEYWORDS ml then [CREATE_PANIC] else [])
            @ (if 2 \<le> count_matches MALWARE_KEYWORDS ml \<and> url_found U m
               then [INSTALL_MALWARE] else [])
      in if s = [] then [DECEPTIVE_INTENT] else s)"
  by (simp add: detect_scammer_intent_def Let_def url_found_def)

lemma predict_closed:
  "explain_message U m = Inr (sw, ex) \<Longrightarrow>
   predict U m p c =
     Inr \<lparr> prediction = p, confidence = c, suspicious_words = sw,
           explanation =
             (let ex1 = (if p = ascii ''ham'' \<and> sw \<noteq> [] then HAM_NOTE # ex else ex)
              in if p = ascii ''spam'' \<and> ex1 = [] then ex1 @ [ML_NOTE] else ex1),
           scammer_intent = detect_scammer_intent U m p \<rparr>"
  by (simp add: predict_def Let_def)

section \<open>The claims\<close>

text \<open>
  C1. For every message the analyzer returns a pair whose list of flagged terms has no
  duplicates and is exactly the sequence of insertions (the keywords found as tokens in the
  order of \<open>SPAM_KEYWORDS\<close>, then the urgency words found in the order of
  \<open>URGENCY_WORDS\<close>, then the two URL markers), and whose list of reasons follows the order
  of the detection steps: keywords, urgency words, URL, symbols, CAPS.
\<close>

theorem C1_flagged_terms_distinct_insertion_order:
  "\<exists>sw ex. explain_message U message = Inr (sw, ex)
     \<and> distinct sw
     \<and> sw = keyword_hits U message @ urgency_hits U message
              @ (if url_found U message then [ascii ''http'', ascii ''www''] else [])
     \<and> ex = map kw_reason (keyword_hits U message) @ map urg_reason (urgency_hits U message)
              @ (if url_found U message then [URL_REASON] else [])
              @ (if symbols_found U message then [SYMBOL_REASON] else [])
              @ (if caps_excess message then [CAPS_REASON] else [])"
  using explain_message_closed [of U message] hits_distinct [of U message] by simp

theorem C1_witness:
  "explain_message ascii_tables (ascii ''urgently win at x.com'')
     = Inr ([ascii ''win'', ascii ''urgent'', ascii ''http'', ascii ''www''],
            [kw_reason (ascii ''win''), urg_reason (ascii ''urgent''), URL_REASON])
   \<and> distinct [ascii ''win'', ascii ''urgent'', ascii ''http'', ascii ''www'']"
proof -
  let ?m = "ascii ''urgently win at x.com''"
  have k: "keyword_hits ascii_tables ?m = [ascii ''win'']" by code_simp
  have u: "urgency_hits ascii_tables ?m = [ascii ''urgent'']" by code_simp
  have l: "url_found ascii_tables ?m" by code_simp
  have s: "\<not> symbols_found ascii_tables ?m" by code_simp
  have c: "\<not> caps_excess ?m" unfolding caps_excess_eq by code_simp
  from C1_flagged_terms_distinct_insertion_order [of ascii_tables ?m]
  show ?thesis unfolding k u using l s c by auto
qed

text \<open>
  C2 as the specification states it takes the ratio over the letters alone. The code divides
  by the length of \<open>words_only\<close>, which keeps the spaces: in \<open>A B c\<close> two of the three
  letters are uppercase, yet two of five kept characters are, and no CAPS reason is given.
\<close>

theorem C2_counterexample:
  "caps_ratio_letters_only (ascii ''A B c'')
   \<and> explain_message ascii_tables (ascii ''A B c'') = Inr ([], [])"
proof
  show "caps_ratio_letters_only (ascii ''A B c'')"
    by (simp add: caps_ratio_letters_only_def letters_only_def ascii_def isupper_def)
  show "explain_message ascii_tables (ascii ''A B c'') = Inr ([], [])"
    by code_simp
qed

text \<open>
  C2, amended. For every message the analyzer gives the excessive-CAPS reason if and only
  if the message has at least one ASCII letter or space and the number of its uppercase
  ASCII letters divided by the number of its ASCII letters and spaces exceeds 0.5.
\<close>

theorem C2_caps_reason_iff_ratio_over_letters_and_spaces:
  "\<exists>sw ex. explain_message U message = Inr (sw, ex)
     \<and> (CAPS_REASON \<in> set ex \<longleftrightarrow>
          count_letters_spaces message \<noteq> 0
          \<and> real (count_upper message) / real (count_letters_spaces message) > 0.5)"
proof -
  obtain sw ex where e: "explain_message U message = Inr (sw, ex)"
    using explain_message_closed [of U message] by blast
  from reasons_closed_mem(5) [OF e] e show ?thesis
    unfolding caps_excess_def by blast
qed

theorem C2_witness:
  "\<exists>sw ex. explain_message ascii_tables (ascii ''HELLO you'') = Inr (sw, ex)
     \<and> CAPS_REASON \<in> set ex"
proof -
  let ?m = "ascii ''HELLO you''"
  have n: "count_letters_spaces ?m = 9" "count_upper ?m = 5"
    by (simp_all add: count_letters_spaces_def count_upper_def keep_letters_spaces_def
        isupper_def ascii_def)
  from C2_caps_reason_iff_ratio_over_letters_and_spaces [of ascii_tables ?m]
  show ?thesis unfolding n by simp
qed

text \<open>
  C3. A keyword of \<open>SPAM_KEYWORDS\<close> is flagged with its suspicious-keyword reason if and
  only if it is one of the word tokens of the lowercased message; a word of
  \<open>URGENCY_WORDS\<close> is flagged with its urgency reason if and only if it is a substring of
  the lowercased message and is not in the flagged terms when the loop reaches it. The
  hits stand at the front of both results in the order of the two lists.
\<close>

theorem C3_keywords_by_token_urgency_by_substring:
  "\<exists>sw ex. explain_message U message = Inr (sw, ex)
     \<and> (\<forall>k \<in> set SPAM_KEYWORDS.
           (k \<in> set sw \<and> kw_reason k \<in> set ex)
             \<longleftrightarrow> k \<in> set (findall_words U (str_lower U message)))
     \<and> (\<forall>w \<in> set URGENCY_WORDS.
           (w \<in> set sw \<and> urg_reason w \<in> set ex)
             \<longleftrightarrow> (py_in w (str_lower U message)
                  \<and> w \<notin> set (flagged_when_scanned U message w)))
     \<and> prefix (keyword_hits U message @ urgency_hits U message) sw
     \<and> prefix (map kw_reason (keyword_hits U message)
                @ map urg_reason (urgency_hits U message)) ex"
proof -
  let ?K = "keyword_hits U message" and ?W = "urgency_hits U message"
  obtain sw ex where e: "explain_message U message = Inr (sw, ex)"
    using explain_message_closed [of U message] by blast
  from e explain_message_closed [of U message]
  have sw: "sw = ?K @ ?W @ (if url_found U message then [ascii ''http'', ascii ''www''] else [])"
    and ex: "ex = map kw_reason ?K @ map urg_reason ?W
            @ (if url_found U message then [URL_REASON] else [])
            @ (if symbols_found U message then [SYMBOL_REASON] else [])
            @ (if caps_excess message then [CAPS_REASON] else [])"
    by simp_all
  have kw: "(k \<in> set sw \<and> kw_reason k \<in> set ex)
              \<longleftrightarrow> k \<in> set (findall_words U (str_lower U message))"
    if "k \<in> set SPAM_KEYWORDS" for k
  proof -
    have "k \<in> set ?K \<longleftrightarrow> k \<in> set (findall_words U (str_lower U message))"
      using that by (simp add: keyword_hits_def)
    moreover have "k \<in> set ?K \<Longrightarrow> k \<in> set sw" unfolding sw by simp
    ultimately show ?thesis using reasons_closed_mem(1) [OF e, of k] by blast
  qed
  have ur: "(w \<in> set sw \<and> urg_reason w \<in> set ex)
              \<longleftrightarrow> (py_in w (str_lower U message)
                   \<and> w \<notin> set (flagged_when_scanned U message w))"
    if "w \<in> set URGENCY_WORDS" for w
  proof -
    have "w \<in> set ?W \<longleftrightarrow> py_in w (str_lower U message) \<and> w \<notin> set ?K"
      using that by (simp add: urgency_hits_def)
    moreover have "w \<in> set ?W \<Longrightarrow> w \<in> set sw" unfolding sw by simp
    ultimately show ?thesis
      using reasons_closed_mem(2) [OF e, of w] not_flagged_when_scanned [of w U message]
      by blast
  qed
  have p1: "prefix (?K @ ?W) sw" unfolding sw by (simp add: prefix_def)
  have p2: "prefix (map kw_reason ?K @ map urg_reason ?W) ex"
    unfolding ex by (simp add: prefix_def)
  from e kw ur p1 p2 show ?thesis by blast
qed

theorem C3_witness:
  "\<exists>sw ex. explain_message ascii_tables (ascii ''urgently win'') = Inr (sw, ex)
     \<and> ascii ''win'' \<in> set sw \<and> kw_reason (ascii ''win'') \<in> set ex
     \<and> ascii ''urgent'' \<in> set sw \<and> urg_reason (ascii ''urgent'') \<in> set ex
     \<and> kw_reason (ascii ''urgent'') \<notin> set ex"
proof -
  let ?m = "ascii ''urgently win''"
  have a: "ascii ''win'' \<in> set SPAM_KEYWORDS" "ascii ''urgent'' \<in> set SPAM_KEYWORDS"
    "ascii ''urgent'' \<in> set URGENCY_WORDS"
    by code_simp+
  have b: "ascii ''win'' \<in> set (findall_words ascii_tables (str_lower ascii_tables ?m))"
    "ascii ''urgent'' \<notin> set (findall_words ascii_tables (str_lower ascii_tables ?m))"
    "py_in (ascii ''urgent'') (str_lower ascii_tables ?m)"
    "ascii ''urgent'' \<notin> set (flagged_when_scanned ascii_tables ?m (ascii ''urgent''))"
    by code_simp+
  from C3_keywords_by_token_urgency_by_substring [of ascii_tables ?m]
  obtain sw ex where e: "explain_message ascii_tables ?m = Inr (sw, ex)"
    and k: "\<forall>k \<in> set SPAM_KEYWORDS. (k \<in> set sw \<and> kw_reason k \<in> set ex)
             \<longleftrightarrow> k \<in> set (findall_words ascii_tables (str_lower ascii_tables ?m))"
    and u: "\<forall>w \<in> set URGENCY_WORDS. (w \<in> set sw \<and> urg_reason w \<in> set ex)
             \<longleftrightarrow> (py_in w (str_lower ascii_tables ?m)
                  \<and> w \<notin> set (flagged_when_scanned ascii_tables ?m w))"
    by blast
  from k a(1) b(1) have "ascii ''win'' \<in> set sw \<and> kw_reason (ascii ''win'') \<in> set ex"
    by blast
  moreover from u a(3) b(3,4)
  have u': "ascii ''urgent'' \<in> set sw \<and> urg_reason (ascii ''urgent'') \<in> set ex"
    by blast
  moreover from k a(2) b(2) u' have "kw_reason (ascii ''urgent'') \<notin> set ex"
    by blast
  ultimately show ?thesis using e by blast
qed

text \<open>
  C4. For every message, intent detection with a label other than \<open>spam\<close> (the label
  \<open>ham\<close> in particular) returns the empty list, whatever the message is.
\<close>

theorem C4_no_intents_unless_spam:
  "pred \<noteq> ascii ''spam'' \<Longrightarrow> detect_scammer_intent U message pred = []"
  by (simp add: detect_scammer_intent_def)

theorem C4_witness:
  "ascii ''ham'' \<noteq> ascii ''spam''
   \<and> detect_scammer_intent ascii_tables (ascii ''win cash prize now'') (ascii ''ham'') = []"
  using C4_no_intents_unless_spam [of "ascii ''ham''" ascii_tables "ascii ''win cash prize now''"]
    labels_differ by simp

text \<open>
  C5. For the label \<open>spam\<close>: the money, data and panic descriptors are in the result if
  and only if at least two terms of the category's list are substrings of the lowercased
  message; the malware descriptor if and only if at least two of its terms are substrings
  and the URL pattern matches the raw message; the specific descriptors of the result stand
  in the order money, data, panic, malware.
\<close>

theorem C5_category_thresholds_and_order:
  "(STEAL_MONEY \<in> set (detect_scammer_intent U message (ascii ''spam''))
      \<longleftrightarrow> 2 \<le> card {w \<in> set MONEY_THEFT_KEYWORDS. py_in w (str_lower U message)})
   \<and> (STEAL_DATA \<in> set (detect_scammer_intent U message (ascii ''spam''))
      \<longleftrightarrow> 2 \<le> card {w \<in> set DATA_THEFT_KEYWORDS. py_in w (str_lower U message)})
   \<and> (CREATE_PANIC \<in> set (detect_scammer_intent U message (ascii ''spam''))
      \<longleftrightarrow> 2 \<le> card {w \<in> set PANIC_KEYWORDS. py_in w (str_lower U message)})
   \<and> (INSTALL_MALWARE \<in> set (detect_scammer_intent U message (ascii ''spam''))
      \<longleftrightarrow> 2 \<le> card {w \<in> set MALWARE_KEYWORDS. py_in w (str_lower U message)}
          \<and> re_search U True URL_PATTERN message)
   \<and> filter (\<lambda>d. d \<noteq> DECEPTIVE_INTENT) (detect_scammer_intent U message (ascii ''spam''))
       = filter (\<lambda>d. d \<in> set (detect_scammer_intent U message (ascii ''spam'')))
           [STEAL_MONEY, STEAL_DATA, CREATE_PANIC, INSTALL_MALWARE]"
  unfolding detect_spam_closed Let_def
    count_matches_card [OF intent_keywords_distinct(1), symmetric]
    count_matches_card [OF intent_keywords_distinct(2), symmetric]
    count_matches_card [OF intent_keywords_distinct(3), symmetric]
    count_matches_card [OF intent_keywords_distinct(4), symmetric]
    url_found_def
  by (simp add: intents_distinct)

theorem C5_witness:
  "2 \<le> card {w \<in> set MONEY_THEFT_KEYWORDS.
            py_in w (str_lower ascii_tables (ascii ''win cash click link x.com''))}
   \<and> \<not> 2 \<le> card {w \<in> set PANIC_KEYWORDS.
            py_in w (str_lower ascii_tables (ascii ''win cash click link x.com''))}
   \<and> detect_scammer_intent ascii_tables (ascii ''win cash click link x.com'') (ascii ''spam'')
       = [STEAL_MONEY, INSTALL_MALWARE]"
proof -
  let ?m = "ascii ''win cash click link x.com''"
  have d: "detect_scammer_intent ascii_tables ?m (ascii ''spam'') = [STEAL_MONEY, INSTALL_MALWARE]"
    by code_simp
  from C5_category_thresholds_and_order [of ascii_tables ?m]
  show ?thesis unfolding d by (simp add: intents_distinct)
qed

text \<open>
  C6. For the label \<open>spam\<close>: the generic descriptor is in the result if and only if no
  category qualified, which is if and only if no specific descriptor is in the result; the
  result has at most four specific descriptors and is never empty.
\<close>

theorem C6_fallback_exclusive_and_nonempty:
  "(DECEPTIVE_INTENT \<in> set (detect_scammer_intent U message (ascii ''spam''))
      \<longleftrightarrow> \<not> (2 \<le> count_matches MONEY_THEFT_KEYWORDS (str_lower U message))
          \<and> \<not> (2 \<le> count_matches DATA_THEFT_KEYWORDS (str_lower U message))
          \<and> \<not> (2 \<le> count_matches PANIC_KEYWORDS (str_lower U message))
          \<and> \<not> (2 \<le> count_matches MALWARE_KEYWORDS (str_lower U message)
                \<and> re_search U True URL_PATTERN message))
   \<and> (DECEPTIVE_INTENT \<in> set (detect_scammer_intent U message (ascii ''spam''))
      \<longleftrightarrow> set (detect_scammer_intent U message (ascii ''spam''))
            \<inter> {STEAL_MONEY, STEAL_DATA, CREATE_PANIC, INSTALL_MALWARE} = {})
   \<and> length (filter (\<lambda>d. d \<noteq> DECEPTIVE_INTENT)
               (detect_scammer_intent U message (ascii ''spam''))) \<le> 4
   \<and> detect_scammer_intent U message (ascii ''spam'') \<noteq> []"
  unfolding detect_spam_closed Let_def url_found_def
  by (simp add: intents_distinct)

theorem C6_witness:
  "detect_scammer_intent ascii_tables (ascii ''hello there'') (ascii ''spam'') = [DECEPTIVE_INTENT]
   \<and> detect_scammer_intent ascii_tables (ascii ''win cash'') (ascii ''spam'') = [STEAL_MONEY]"
proof -
  let ?a = "ascii ''hello there''" and ?b = "ascii ''win cash''"
  have n: "\<not> 2 \<le> count_matches MONEY_THEFT_KEYWORDS (str_lower ascii_tables ?a)"
    "\<not> 2 \<le> count_matches DATA_THEFT_KEYWORDS (str_lower ascii_tables ?a)"
    "\<not> 2 \<le> count_matches PANIC_KEYWORDS (str_lower ascii_tables ?a)"
    "\<not> 2 \<le> count_matches MALWARE_KEYWORDS (str_lower ascii_tables ?a)"
    "2 \<le> count_matches MONEY_THEFT_KEYWORDS (str_lower ascii_tables ?b)"
    by code_simp+
  from C6_fallback_exclusive_and_nonempty [of ascii_tables ?a] n
  have a: "DECEPTIVE_INTENT \<in> set (detect_scammer_intent ascii_tables ?a (ascii ''spam''))"
    and a': "set (detect_scammer_intent ascii_tables ?a (ascii ''spam''))
              \<inter> {STEAL_MONEY, STEAL_DATA, CREATE_PANIC, INSTALL_MALWARE} = {}"
    by blast+
  from C6_fallback_exclusive_and_nonempty [of ascii_tables ?b] n
  have b: "DECEPTIVE_INTENT \<notin> set (detect_scammer_intent ascii_tables ?b (ascii ''spam''))"
    by blast
  have ea: "detect_scammer_intent ascii_tables ?a (ascii ''spam'') = [DECEPTIVE_INTENT]"
    by code_simp
  have eb: "detect_scammer_intent ascii_tables ?b (ascii ''spam'') = [STEAL_MONEY]"
    by code_simp
  from a a' b ea eb show ?thesis by simp
qed

text \<open>
  C7. For the label \<open>ham\<close> and every message and confidence: when the analyzer flagged at
  least one term, the explanation of the response is the note about the model's label
  followed by the analyzer's reasons, so the note is its element 0; when no term was
  flagged the explanation is the analyzer's reasons, without the note. The analyzer never
  produces the note itself.
\<close>

theorem C7_ham_disclaimer_first:
  "\<exists>sw ex r. explain_message U message = Inr (sw, ex)
     \<and> predict U message (ascii ''ham'') conf = Inr r
     \<and> suspicious_words r = sw
     \<and> HAM_NOTE \<notin> set ex
     \<and> (sw \<noteq> [] \<longrightarrow> explanation r = HAM_NOTE # ex \<and> explanation r ! 0 = HAM_NOTE)
     \<and> (sw = [] \<longrightarrow> explanation r = ex \<and> HAM_NOTE \<notin> set (explanation r))"
proof -
  obtain sw ex where e: "explain_message U message = Inr (sw, ex)"
    using explain_message_closed [of U message] by blast
  from predict_closed [OF e, of "ascii ''ham''" conf] reasons_closed_mem(6) [OF e] e
  show ?thesis by (auto simp: labels_differ Let_def)
qed

theorem C7_witness:
  "(\<exists>r. predict ascii_tables (ascii ''free lunch'') (ascii ''ham'') (95::real) = Inr r
       \<and> suspicious_words r = [ascii ''free'']
       \<and> explanation r = [HAM_NOTE, kw_reason (ascii ''free'')])
   \<and> (\<exists>r. predict ascii_tables (ascii ''hello'') (ascii ''ham'') (95::real) = Inr r
       \<and> suspicious_words r = [] \<and> explanation r = [])"
proof -
  have e1: "explain_message ascii_tables (ascii ''free lunch'')
              = Inr ([ascii ''free''], [kw_reason (ascii ''free'')])"
    by code_simp
  have e2: "explain_message ascii_tables (ascii ''hello'') = Inr ([], [])"
    by code_simp
  from C7_ham_disclaimer_first [of ascii_tables "ascii ''free lunch''" "95::real"] e1
  have 1: "\<exists>r. predict ascii_tables (ascii ''free lunch'') (ascii ''ham'') (95::real) = Inr r
       \<and> suspicious_words r = [ascii ''free'']
       \<and> explanation r = [HAM_NOTE, kw_reason (ascii ''free'')]"
    by auto
  from C7_ham_disclaimer_first [of ascii_tables "ascii ''hello''" "95::real"] e2
  have 2: "\<exists>r. predict ascii_tables (ascii ''hello'') (ascii ''ham'') (95::real) = Inr r
       \<and> suspicious_words r = [] \<and> explanation r = []"
    by auto
  from 1 2 show ?thesis by blast
qed

text \<open>
  C8. For the label \<open>spam\<close> and every message and confidence: when the analyzer gave no
  reason, the explanation of the response is the single learned-features note; and the
  explanation is never empty.
\<close>

theorem C8_spam_never_without_reason:
  "\<exists>sw ex r. explain_message U message = Inr (sw, ex)
     \<and> predict U message (ascii ''spam'') conf = Inr r
     \<and> (ex = [] \<longrightarrow> explanation r = [ML_NOTE])
     \<and> explanation r \<noteq> []"
proof -
  obtain sw ex where e: "explain_message U message = Inr (sw, ex)"
    using explain_message_closed [of U message] by blast
  from predict_closed [OF e, of "ascii ''spam''" conf] e labels_differ
  show ?thesis by (auto simp: Let_def)
qed

theorem C8_witness:
  "\<exists>r. predict ascii_tables (ascii ''hello'') (ascii ''spam'') (95::real) = Inr r
     \<and> explanation r = [ML_NOTE]"
proof -
  have e: "explain_message ascii_tables (ascii ''hello'') = Inr ([], [])"
    by code_simp
  from C8_spam_never_without_reason [of ascii_tables "ascii ''hello''" "95::real"] e
  show ?thesis by auto
qed

text \<open>
  C9. The analyzer returns a pair of lists for every message and never raises; the divisor
  of the CAPS ratio, \<open>max(len(words_only), 1)\<close>, is never zero, so the division never
  raises; the intent detector returns a list of the five fixed descriptors for every
  message and label.
\<close>

theorem C9_total_and_well_formed:
  "(\<exists>sw ex. explain_message U message = Inr (sw, ex))
   \<and> (\<exists>q. py_truediv a (max n 1) = Inr q)
   \<and> set (detect_scammer_intent U message pred)
       \<subseteq> {STEAL_MONEY, STEAL_DATA, CREATE_PANIC, INSTALL_MALWARE, DECEPTIVE_INTENT}"
proof -
  have 1: "\<exists>sw ex. explain_message U message = Inr (sw, ex)"
    using explain_message_closed [of U message] by blast
  have 2: "\<exists>q. py_truediv a (max n 1) = Inr q"
    by (simp add: py_truediv_def max_def)
  have 3: "set (detect_scammer_intent U message pred)
       \<subseteq> {STEAL_MONEY, STEAL_DATA, CREATE_PANIC, INSTALL_MALWARE, DECEPTIVE_INTENT}"
    by (auto simp: detect_scammer_intent_def Let_def)
  from 1 2 3 show ?thesis by blast
qed

theorem C9_witness:
  "(\<exists>sw ex. explain_message ascii_tables [] = Inr (sw, ex))
   \<and> (\<exists>q. py_truediv 0 (max 0 1) = Inr q)
   \<and> set (detect_scammer_intent ascii_tables [] (ascii ''spam''))
       \<subseteq> {STEAL_MONEY, STEAL_DATA, CREATE_PANIC, INSTALL_MALWARE, DECEPTIVE_INTENT}"
  by (rule C9_total_and_well_formed)

text \<open>
  C10. For every message, if the analyzer's list of reasons is empty then its list of
  flagged terms is empty; hence whenever the response for the label \<open>spam\<close> carries the
  learned-features note, its list of suspicious words is empty.
\<close>

theorem C10_no_reason_no_flagged_term:
  "\<exists>sw ex r. explain_message U message = Inr (sw, ex)
     \<and> (ex = [] \<longrightarrow> sw = [])
     \<and> predict U message (ascii ''spam'') conf = Inr r
     \<and> (ML_NOTE \<in> set (explanation r) \<longrightarrow> suspicious_words r = [])"
proof -
  obtain sw ex where e: "explain_message U message = Inr (sw, ex)"
    using explain_message_closed [of U message] by blast
  from e explain_message_closed [of U message]
  have sw: "sw = keyword_hits U message @ urgency_hits U message
              @ (if url_found U message then [ascii ''http'', ascii ''www''] else [])"
    and ex: "ex = map kw_reason (keyword_hits U message) @ map urg_reason (urgency_hits U message)
            @ (if url_found U message then [URL_REASON] else [])
            @ (if symbols_found U message then [SYMBOL_REASON] else [])
            @ (if caps_excess message then [CAPS_REASON] else [])"
    by simp_all
  have imp: "ex = [] \<longrightarrow> sw = []"
    unfolding sw ex by (auto split: if_splits)
  from predict_closed [OF e, of "ascii ''spam''" conf] reasons_closed_mem(7) [OF e] e imp
    labels_differ
  show ?thesis by (auto simp: Let_def split: if_splits)
qed

theorem C10_witness:
  "\<exists>r. explain_message ascii_tables (ascii ''hello'') = Inr ([], [])
     \<and> predict ascii_tables (ascii ''hello'') (ascii ''spam'') (95::real) = Inr r
     \<and> ML_NOTE \<in> set (explanation r) \<and> suspicious_words r = []"
proof -
  have e: "explain_message ascii_tables (ascii ''hello'') = Inr ([], [])"
    by code_simp
  from C10_no_reason_no_flagged_term [of ascii_tables "ascii ''hello''" "95::real"]
  obtain sw ex r where a: "explain_message ascii_tables (ascii ''hello'') = Inr (sw, ex)"
    and p: "predict ascii_tables (ascii ''hello'') (ascii ''spam'') (95::real) = Inr r"
    and i: "ML_NOTE \<in> set (explanation r) \<longrightarrow> suspicious_words r = []"
    by blast
  from predict_closed [OF e, of "ascii ''spam''" "95::real"] p
  have "explanation r = [ML_NOTE]" by (auto simp: Let_def)
  with i p e show ?thesis by auto
qed

end
